theory Spec2Isabelle
  imports Main
begin

section \<open>The stored data\<close>

text \<open>
  The server keeps its state in two PostgreSQL tables, \<open>slots\<close> and \<open>appointments\<close>
  (created by \<open>initializeDatabase\<close>). A table is the list of its rows; a row is a record
  with one field per column. The column \<open>id\<close> of \<open>slots\<close> is \<open>s_id\<close> here and the
  column \<open>id\<close> of \<open>appointments\<close> is \<open>a_id\<close> (the source's own aliases are \<open>s\<close> and
  \<open>a\<close>); every other column keeps its name. The column \<open>created_at\<close> of \<open>slots\<close> and
  the table \<open>doctors\<close> are read by no statement of the booking code and are left out.

  A timestamp is a number of microseconds, the resolution of the database's clock.
\<close>

type_synonym timestamp = int

datatype status = PENDING | CONFIRMED | FAILED | CANCELLED

record slot =
  s_id :: int
  doctor_id :: int
  slot_date :: string
  start_time :: string
  end_time :: string
  is_booked :: bool

record appointment =
  a_id :: int
  slot_id :: int
  patient_name :: string
  patient_email :: string
  patient_phone :: string
  patient_age :: int
  reason_for_visit :: string
  status :: status
  booking_time :: timestamp
  confirmation_time :: "timestamp option"

text \<open>
  \<open>appointments_id_seq\<close> is the sequence behind \<open>id SERIAL PRIMARY KEY\<close>: the value the
  next inserted appointment receives.
\<close>

record database =
  slots :: "slot list"
  appointments :: "appointment list"
  appointments_id_seq :: int

section \<open>Statements that can raise\<close>

text \<open>
  Every \<open>await client.query(...)\<close> and \<open>await pool.query(...)\<close> inside a \<open>try\<close> block
  can throw (the connection is lost, the database rejects a value). Which statements
  throw is decided outside the program, so each handler takes it as an argument: a
  predicate on the statements the booking code issues. \<open>ROLLBACK\<close> stands for the
  \<open>ROLLBACK\<close> awaited before an early return, inside the \<open>try\<close> block; the one
  in a \<open>catch\<close> block is taken not to throw. A handler is modelled from the point
  where the pool has handed out its connection.
\<close>

datatype statement =
    BEGIN
  | SELECT_SLOT_FOR_UPDATE
  | INSERT_APPOINTMENT
  | UPDATE_SLOT_BOOKED
  | COMMIT
  | ROLLBACK
  | UPDATE_APPOINTMENT_CONFIRMED
  | SELECT_APPOINTMENT
  | UPDATE_APPOINTMENT_CANCELLED
  | UPDATE_SLOT_RELEASED
  | EXPIRE_PENDING

type_synonym faults = "statement \<Rightarrow> bool"

definition no_faults :: faults where
  "no_faults = (\<lambda>q. False)"

text \<open>
  \<open>ROLLBACK\<close> discards every row change of the transaction. A value drawn from a
  sequence is not given back, so the sequence keeps the position it reached.
\<close>

definition rollback :: "database \<Rightarrow> database \<Rightarrow> database" where
  "rollback s0 s = s0\<lparr>appointments_id_seq := appointments_id_seq s\<rparr>"

section \<open>Responses\<close>

text \<open>
  One constructor for each response a handler of the booking code sends, named after the
  error kind it stands for; \<open>http_status\<close> and \<open>message\<close> give the status code and the
  \<open>message\<close> field the source writes.
\<close>

datatype response =
    Created appointment
  | ValidationFailed
  | SlotNotFound
  | Conflict
  | BookingError
  | Confirmed appointment
  | NotFoundOrAlreadyProcessed
  | ConfirmError
  | Cancelled
  | AppointmentNotFound
  | CancelError

fun http_status :: "response \<Rightarrow> nat" where
  "http_status (Created a) = 201"
| "http_status ValidationFailed = 400"
| "http_status SlotNotFound = 404"
| "http_status Conflict = 409"
| "http_status BookingError = 500"
| "http_status (Confirmed a) = 200"
| "http_status NotFoundOrAlreadyProcessed = 404"
| "http_status ConfirmError = 500"
| "http_status Cancelled = 200"
| "http_status AppointmentNotFound = 404"
| "http_status CancelError = 500"

fun message :: "response \<Rightarrow> string" where
  "message (Created a) = ''Appointment booked successfully!''"
| "message ValidationFailed = ''All fields are required''"
| "message SlotNotFound = ''Slot not found''"
| "message Conflict = ''Slot is already booked! Please select another slot.''"
| "message BookingError = ''Error booking appointment''"
| "message (Confirmed a) = ''Appointment confirmed!''"
| "message NotFoundOrAlreadyProcessed = ''Appointment not found or already processed''"
| "message ConfirmError = ''Error confirming appointment''"
| "message Cancelled = ''Appointment cancelled successfully''"
| "message AppointmentNotFound = ''Appointment not found''"
| "message CancelError = ''Error cancelling appointment''"

section \<open>Booking: \<open>POST /api/appointments\<close>\<close>

text \<open>
  The request body, at the types the client's \<open>bookAppointment\<close> declares: \<open>slot_id\<close> and
  \<open>patient_age\<close> are numbers, the other four fields are strings. \<open>None\<close> is a field
  that is absent (or \<open>null\<close>). JavaScript's \<open>!x\<close> holds of an absent field, of the
  number 0 and of the empty string.
\<close>

record booking_request =
  req_slot_id :: "int option"
  req_patient_name :: "string option"
  req_patient_email :: "string option"
  req_patient_phone :: "string option"
  req_patient_age :: "int option"
  req_reason_for_visit :: "string option"

fun falsy_number :: "int option \<Rightarrow> bool" where
  "falsy_number None = True"
| "falsy_number (Some n) = (n = 0)"

fun falsy_string :: "string option \<Rightarrow> bool" where
  "falsy_string None = True"
| "falsy_string (Some t) = (t = [])"

definition missing_field :: "booking_request \<Rightarrow> bool" where
  "missing_field req =
     (falsy_number (req_slot_id req) \<or> falsy_string (req_patient_name req) \<or>
      falsy_string (req_patient_email req) \<or> falsy_string (req_patient_phone req) \<or>
      falsy_number (req_patient_age req) \<or> falsy_string (req_reason_for_visit req))"

text \<open>
  The row that \<open>INSERT INTO appointments ... RETURNING *\<close> creates: the six values of
  the request, status \<open>PENDING\<close>, and the column defaults (\<open>id\<close> from the sequence,
  \<open>booking_time\<close> the current time, \<open>confirmation_time\<close> null).
\<close>

definition new_appointment :: "timestamp \<Rightarrow> database \<Rightarrow> booking_request \<Rightarrow> appointment" where
  "new_appointment now s req =
     \<lparr>a_id = appointments_id_seq s,
      slot_id = the (req_slot_id req),
      patient_name = the (req_patient_name req),
      patient_email = the (req_patient_email req),
      patient_phone = the (req_patient_phone req),
      patient_age = the (req_patient_age req),
      reason_for_visit = the (req_reason_for_visit req),
      status = PENDING,
      booking_time = now,
      confirmation_time = None\<rparr>"

definition insert_appointment :: "appointment \<Rightarrow> database \<Rightarrow> database" where
  "insert_appointment a s =
     s\<lparr>appointments := appointments s @ [a],
       appointments_id_seq := appointments_id_seq s + 1\<rparr>"

text \<open>\<open>UPDATE slots SET is_booked = b WHERE id = k\<close>.\<close>

definition set_booked :: "int \<Rightarrow> bool \<Rightarrow> database \<Rightarrow> database" where
  "set_booked k b s =
     s\<lparr>slots := map (\<lambda>sl. if s_id sl = k then sl\<lparr>is_booked := b\<rparr> else sl) (slots s)\<rparr>"

text \<open>
  The handler, statement by statement. The validation returns before \<open>BEGIN\<close>; the two
  early returns inside the transaction roll back; the \<open>catch\<close> block rolls back and
  answers 500 whichever statement threw.
\<close>

definition book :: "faults \<Rightarrow> timestamp \<Rightarrow> database \<Rightarrow> booking_request \<Rightarrow> response \<times> database" where
  "book F now s req =
     (if missing_field req then (ValidationFailed, s)
      else if F BEGIN then (BookingError, s)
      else if F SELECT_SLOT_FOR_UPDATE then (BookingError, s)
      else
        (case filter (\<lambda>sl. s_id sl = the (req_slot_id req)) (slots s) of
           [] \<Rightarrow> if F ROLLBACK then (BookingError, s) else (SlotNotFound, s)
         | sl # rest \<Rightarrow>
             if is_booked sl then (if F ROLLBACK then (BookingError, s) else (Conflict, s))
             else if F INSERT_APPOINTMENT then (BookingError, s)
             else
               (let a = new_appointment now s req;
                    s1 = insert_appointment a s
                in if F UPDATE_SLOT_BOOKED then (BookingError, rollback s s1)
                   else
                     (let s2 = set_booked (the (req_slot_id req)) True s1
                      in if F COMMIT then (BookingError, rollback s s2)
                         else (Created a, s2)))))"

section \<open>Confirming: \<open>POST /api/appointments/:id/confirm\<close>\<close>

text \<open>
  One statement outside any transaction:
  \<open>UPDATE appointments SET status = 'CONFIRMED', confirmation_time = NOW()
  WHERE id = $1 AND status = 'PENDING' RETURNING *\<close>. The statement rewrites every row
  the condition selects and returns the rewritten rows; the handler answers 404 when
  there is none and sends the first one otherwise. A statement that throws is answered
  500. The id of the route is taken as the integer it denotes. The column \<open>id\<close> is a
  32-bit \<open>INTEGER\<close> (\<open>id SERIAL PRIMARY KEY\<close>), and the parameter compared with it
  is read at that type: for an id outside its range the statement throws, whatever the
  table holds.
\<close>

definition integer_range :: "int \<Rightarrow> bool" where
  "integer_range k \<longleftrightarrow> - 2147483648 \<le> k \<and> k \<le> 2147483647"

definition confirmed_at :: "timestamp \<Rightarrow> appointment \<Rightarrow> appointment" where
  "confirmed_at now a = a\<lparr>status := CONFIRMED, confirmation_time := Some now\<rparr>"

definition confirm :: "faults \<Rightarrow> timestamp \<Rightarrow> database \<Rightarrow> int \<Rightarrow> response \<times> database" where
  "confirm F now s k =
     (if F UPDATE_APPOINTMENT_CONFIRMED \<or> \<not> integer_range k then (ConfirmError, s)
      else
        (let selected = (\<lambda>a. a_id a = k \<and> status a = PENDING);
             rows = map (confirmed_at now) (filter selected (appointments s));
             s1 = s\<lparr>appointments :=
                    map (\<lambda>a. if selected a then confirmed_at now a else a) (appointments s)\<rparr>
         in case rows of
              [] \<Rightarrow> (NotFoundOrAlreadyProcessed, s1)
            | a # rest \<Rightarrow> (Confirmed a, s1)))"

section \<open>Cancelling: \<open>POST /api/appointments/:id/cancel\<close>\<close>

text \<open>
  A transaction of three statements: read the appointment by id (404 and \<open>ROLLBACK\<close>
  when there is none), set the status of the rows with that id to \<open>CANCELLED\<close>, set
  \<open>is_booked\<close> of the slot the appointment names to false. No statement reads the
  status the appointment had. The \<open>catch\<close> block rolls back and answers 500.
\<close>

definition set_cancelled :: "int \<Rightarrow> database \<Rightarrow> database" where
  "set_cancelled k s =
     s\<lparr>appointments :=
         map (\<lambda>a. if a_id a = k then a\<lparr>status := CANCELLED\<rparr> else a) (appointments s)\<rparr>"

definition cancel :: "faults \<Rightarrow> database \<Rightarrow> int \<Rightarrow> response \<times> database" where
  "cancel F s k =
     (if F BEGIN then (CancelError, s)
      else if F SELECT_APPOINTMENT then (CancelError, s)
      else
        (case filter (\<lambda>a. a_id a = k) (appointments s) of
           [] \<Rightarrow> if F ROLLBACK then (CancelError, s) else (AppointmentNotFound, s)
         | a # rest \<Rightarrow>
             if F UPDATE_APPOINTMENT_CANCELLED then (CancelError, s)
             else
               (let s1 = set_cancelled k s
                in if F UPDATE_SLOT_RELEASED then (CancelError, rollback s s1)
                   else
                     (let s2 = set_booked (slot_id a) False s1
                      in if F COMMIT then (CancelError, rollback s s2)
                         else (Cancelled, s2)))))"

section \<open>Expiring pending bookings: the \<open>setInterval\<close> callback\<close>

text \<open>
  One statement: a data-modifying \<open>WITH\<close> query that sets to \<open>FAILED\<close> every
  appointment with \<open>status = 'PENDING' AND booking_time < NOW() - INTERVAL '2 minutes'\<close>
  and returns the \<open>slot_id\<close> of each, and an \<open>UPDATE\<close> of \<open>slots\<close> that sets
  \<open>is_booked\<close> to false where the slot's id is among those returned. The callback logs
  the number of slots updated when it is positive, and logs the error when the
  statement throws.
\<close>

definition two_minutes :: int where
  "two_minutes = 120 * 1000000"

definition expired :: "timestamp \<Rightarrow> appointment \<Rightarrow> bool" where
  "expired now a \<longleftrightarrow> status a = PENDING \<and> booking_time a < now - two_minutes"

datatype sweep_log = Nothing_logged | Logged_expired nat | Logged_error

definition expire_pending :: "faults \<Rightarrow> timestamp \<Rightarrow> database \<Rightarrow> sweep_log \<times> database" where
  "expire_pending F now s =
     (if F EXPIRE_PENDING then (Logged_error, s)
      else
        (let expired_appointments = map slot_id (filter (expired now) (appointments s));
             released = (\<lambda>sl. s_id sl \<in> set expired_appointments);
             rowCount = length (filter released (slots s));
             s1 = s\<lparr>appointments :=
                    map (\<lambda>a. if expired now a then a\<lparr>status := FAILED\<rparr> else a) (appointments s),
                    slots :=
                    map (\<lambda>sl. if released sl then sl\<lparr>is_booked := False\<rparr> else sl) (slots s)\<rparr>
         in (if rowCount > 0 then Logged_expired rowCount else Nothing_logged, s1)))"

section \<open>Server start\<close>

text \<open>
  What the server reads from its environment (\<open>process.env\<close>, a map from names to
  strings) when it starts: \<open>PORT || 5000\<close> and \<open>CORS_ORIGIN || '*'\<close>, where an unset or
  empty variable gives the default. The timer is registered as
  \<open>setInterval(callback, 60000)\<close>: its period is the literal, in milliseconds, and its
  callback is the one above, whose statement holds the literal \<open>INTERVAL '2 minutes'\<close>.
\<close>

type_synonym environment = "string \<rightharpoonup> string"

definition env_or :: "environment \<Rightarrow> string \<Rightarrow> string \<Rightarrow> string" where
  "env_or env name dflt =
     (case env name of None \<Rightarrow> dflt | Some v \<Rightarrow> if v = [] then dflt else v)"

record server =
  port :: string
  cors_origin :: string
  sweep_period_ms :: nat
  sweep_callback :: "faults \<Rightarrow> timestamp \<Rightarrow> database \<Rightarrow> sweep_log \<times> database"

definition start_server :: "environment \<Rightarrow> server" where
  "start_server env =
     \<lparr>port = env_or env ''PORT'' ''5000'',
      cors_origin = env_or env ''CORS_ORIGIN'' ''*'',
      sweep_period_ms = 60000,
      sweep_callback = expire_pending\<rparr>"

section \<open>Sequences of operations\<close>

text \<open>
  The four operations that write the two tables, and a run of them: each operation comes
  with the time at which it runs and with the statements that throw while it runs.
\<close>

datatype operation =
    Book booking_request
  | Confirm int
  | Cancel int
  | Sweep

fun step :: "faults \<Rightarrow> timestamp \<Rightarrow> operation \<Rightarrow> database \<Rightarrow> database" where
  "step F now (Book req) s = snd (book F now s req)"
| "step F now (Confirm k) s = snd (confirm F now s k)"
| "step F now (Cancel k) s = snd (cancel F s k)"
| "step F now Sweep s = snd (expire_pending F now s)"

fun run :: "(faults \<times> timestamp \<times> operation) list \<Rightarrow> database \<Rightarrow> database" where
  "run [] s = s"
| "run ((F, now, op) # ops) s = run ops (step F now op s)"

section \<open>The invariant between the two tables\<close>

text \<open>
  An appointment is active when its status is \<open>PENDING\<close> or \<open>CONFIRMED\<close>. The tables
  are consistent when every slot is booked exactly when an active appointment names it,
  and no slot is named by two active appointments.
\<close>

definition active :: "appointment \<Rightarrow> bool" where
  "active a \<longleftrightarrow> status a = PENDING \<or> status a = CONFIRMED"

definition active_on :: "database \<Rightarrow> int \<Rightarrow> appointment list" where
  "active_on s k = filter (\<lambda>a. slot_id a = k \<and> active a) (appointments s)"

definition consistent :: "database \<Rightarrow> bool" where
  "consistent s \<longleftrightarrow>
     (\<forall>sl \<in> set (slots s).
        (is_booked sl \<longleftrightarrow> active_on s (s_id sl) \<noteq> []) \<and> length (active_on s (s_id sl)) \<le> 1)"

text \<open>
  The keys are as the schema makes them: the ids of the appointments are distinct
  (\<open>PRIMARY KEY\<close>) and all below the position of the sequence that issues them.
\<close>

definition keys_ok :: "database \<Rightarrow> bool" where
  "keys_ok s \<longleftrightarrow>
     distinct (map a_id (appointments s)) \<and>
     (\<forall>a \<in> set (appointments s). a_id a < appointments_id_seq s)"

section \<open>Example data\<close>

definition slot1 :: slot where
  "slot1 = \<lparr>s_id = 1, doctor_id = 1, slot_date = ''2025-01-15'', start_time = ''10:00'',
            end_time = ''10:30'', is_booked = False\<rparr>"

definition slot2 :: slot where
  "slot2 = \<lparr>s_id = 2, doctor_id = 1, slot_date = ''2025-01-15'', start_time = ''10:30'',
            end_time = ''11:00'', is_booked = False\<rparr>"

definition db0 :: database where
  "db0 = \<lparr>slots = [slot1, slot2], appointments = [], appointments_id_seq = 1\<rparr>"

definition john :: booking_request where
  "john = \<lparr>req_slot_id = Some 1, req_patient_name = Some ''John Doe'',
           req_patient_email = Some ''john@example.com'',
           req_patient_phone = Some ''+1234567890'', req_patient_age = Some 35,
           req_reason_for_visit = Some ''Regular checkup''\<rparr>"

definition mary :: booking_request where
  "mary = \<lparr>req_slot_id = Some 1, req_patient_name = Some ''Mary Major'',
           req_patient_email = Some ''mary@example.com'',
           req_patient_phone = Some ''+1987654321'', req_patient_age = Some 41,
           req_reason_for_visit = Some ''Follow-up''\<rparr>"

definition seconds :: "int \<Rightarrow> timestamp" where
  "seconds n = n * 1000000"

definition age_zero :: booking_request where
  "age_zero = john\<lparr>req_patient_age := Some 0\<rparr>"

definition empty_name :: booking_request where
  "empty_name = john\<lparr>req_patient_name := Some []\<rparr>"

definition no_slot_id :: booking_request where
  "no_slot_id = john\<lparr>req_slot_id := None\<rparr>"

text \<open>
  The states of one history: John books slot 1 at time 0; the tick at 121 seconds
  expires his booking; Mary books slot 1 at 130 seconds; appointment 1 is then
  cancelled.
\<close>

definition john_pending :: appointment where
  "john_pending =
     \<lparr>a_id = 1, slot_id = 1, patient_name = ''John Doe'',
      patient_email = ''john@example.com'', patient_phone = ''+1234567890'',
      patient_age = 35, reason_for_visit = ''Regular checkup'', status = PENDING,
      booking_time = 0, confirmation_time = None\<rparr>"

definition mary_pending :: appointment where
  "mary_pending =
     \<lparr>a_id = 2, slot_id = 1, patient_name = ''Mary Major'',
      patient_email = ''mary@example.com'', patient_phone = ''+1987654321'',
      patient_age = 41, reason_for_visit = ''Follow-up'', status = PENDING,
      booking_time = 130000000, confirmation_time = None\<rparr>"

definition db_john_pending :: database where
  "db_john_pending =
     \<lparr>slots = [slot1\<lparr>is_booked := True\<rparr>, slot2], appointments = [john_pending],
      appointments_id_seq = 2\<rparr>"

definition db_john_failed :: database where
  "db_john_failed =
     \<lparr>slots = [slot1, slot2], appointments = [john_pending\<lparr>status := FAILED\<rparr>],
      appointments_id_seq = 2\<rparr>"

definition db_rebooked :: database where
  "db_rebooked =
     \<lparr>slots = [slot1\<lparr>is_booked := True\<rparr>, slot2],
      appointments = [john_pending\<lparr>status := FAILED\<rparr>, mary_pending],
      appointments_id_seq = 3\<rparr>"

definition db_after_cancel :: database where
  "db_after_cancel =
     \<lparr>slots = [slot1, slot2],
      appointments = [john_pending\<lparr>status := CANCELLED\<rparr>, mary_pending],
      appointments_id_seq = 3\<rparr>"

definition history :: "(faults \<times> timestamp \<times> operation) list" where
  "history =
     [(no_faults, seconds 0, Book john), (no_faults, seconds 121, Sweep),
      (no_faults, seconds 130, Book mary)]"

definition commit_fails :: faults where
  "commit_fails = (\<lambda>q. q = COMMIT)"

definition tuned :: environment where
  "tuned = [''sweepIntervalSeconds'' \<mapsto> ''30'', ''pendingGraceSeconds'' \<mapsto> ''30'']"

section \<open>Reading the tables after a statement\<close>

lemma slots_rollback: "slots (rollback s0 s) = slots s0"
  by (simp add: rollback_def)

lemma appointments_rollback: "appointments (rollback s0 s) = appointments s0"
  by (simp add: rollback_def)

lemma slots_insert_appointment: "slots (insert_appointment a s) = slots s"
  by (simp add: insert_appointment_def)

lemma appointments_insert_appointment:
  "appointments (insert_appointment a s) = appointments s @ [a]"
  by (simp add: insert_appointment_def)

lemma appointments_set_booked: "appointments (set_booked k b s) = appointments s"
  by (simp add: set_booked_def)

lemma slots_set_booked:
  "slots (set_booked k b s) =
     map (\<lambda>sl. if s_id sl = k then sl\<lparr>is_booked := b\<rparr> else sl) (slots s)"
  by (simp add: set_booked_def)

lemma filter_Cons_member: "filter P xs = x # ys \<Longrightarrow> x \<in> set xs \<and> P x"
proof -
  assume "filter P xs = x # ys"
  then have "x \<in> set (filter P xs)" by simp
  then show ?thesis by simp
qed

text \<open>Every row of \<open>slots\<close> after \<open>set_booked\<close> comes from a row before it.\<close>

lemma in_slots_set_booked:
  assumes "x \<in> set (slots (set_booked k b s))"
  shows "\<exists>y \<in> set (slots s). s_id x = s_id y \<and> (s_id y = k \<longrightarrow> is_booked x = b) \<and>
           (s_id y \<noteq> k \<longrightarrow> x = y)"
proof -
  from assms obtain y where y: "y \<in> set (slots s)"
    and x: "x = (if s_id y = k then y\<lparr>is_booked := b\<rparr> else y)"
    unfolding slots_set_booked set_map by (rule imageE)
  have "s_id x = s_id y" by (simp add: x)
  moreover have "s_id y = k \<longrightarrow> is_booked x = b" by (simp add: x)
  moreover have "s_id y \<noteq> k \<longrightarrow> x = y" by (simp add: x)
  ultimately show ?thesis using y by blast
qed

lemma set_booked_member:
  assumes "y \<in> set (slots s)"
  shows "(if s_id y = k then y\<lparr>is_booked := b\<rparr> else y) \<in> set (slots (set_booked k b s))"
  unfolding slots_set_booked set_map using assms by (rule imageI)

lemma all_booked_in_set_booked:
  assumes "x \<in> set (slots (set_booked k b s))" and "s_id x = k"
  shows "is_booked x = b"
  using in_slots_set_booked [OF assms(1)] assms(2) by metis

lemma some_slot_in_set_booked:
  assumes "y \<in> set (slots s)" and "s_id y = k"
  shows "\<exists>x \<in> set (slots (set_booked k b s)). s_id x = k"
proof -
  have "y\<lparr>is_booked := b\<rparr> \<in> set (slots (set_booked k b s))"
    using set_booked_member [OF assms(1), of k b] assms(2) by simp
  moreover have "s_id (y\<lparr>is_booked := b\<rparr>) = k"
    using assms(2) by simp
  ultimately show ?thesis by (rule rev_bexI)
qed

text \<open>What booking does when it succeeds, and what it leaves alone when it does not.\<close>

lemma book_cases:
  "book F now s req = (r, s') \<Longrightarrow>
     (r = Created (new_appointment now s req) \<and>
      s' = set_booked (the (req_slot_id req)) True (insert_appointment (new_appointment now s req) s) \<and>
      \<not> missing_field req \<and>
      (\<forall>q \<in> {BEGIN, SELECT_SLOT_FOR_UPDATE, INSERT_APPOINTMENT, UPDATE_SLOT_BOOKED, COMMIT}. \<not> F q) \<and>
      (\<exists>sl \<in> set (slots s). s_id sl = the (req_slot_id req) \<and> \<not> is_booked sl)) \<or>
     (r \<in> {ValidationFailed, SlotNotFound, Conflict, BookingError} \<and>
      appointments s' = appointments s \<and> slots s' = slots s)"
  unfolding book_def Let_def
  by (auto split: if_splits list.splits dest: filter_Cons_member
      simp add: slots_rollback appointments_rollback)

lemma update_none_selected:
  assumes "filter P xs = []"
  shows "map (\<lambda>x. if P x then f x else x) xs = xs"
proof (rule map_idI)
  fix x assume "x \<in> set xs"
  with assms have "\<not> P x"
    by (simp add: filter_empty_conv)
  then show "(if P x then f x else x) = x" by simp
qed

lemma confirm_unfold:
  assumes "\<not> F UPDATE_APPOINTMENT_CONFIRMED" and "integer_range k"
  shows "confirm F now s k =
     (case filter (\<lambda>a. a_id a = k \<and> status a = PENDING) (appointments s) of
        [] \<Rightarrow> (NotFoundOrAlreadyProcessed, s)
      | a # rest \<Rightarrow>
          (Confirmed (confirmed_at now a),
           s\<lparr>appointments :=
               map (\<lambda>a. if a_id a = k \<and> status a = PENDING then confirmed_at now a else a)
                 (appointments s)\<rparr>))"
proof (cases "filter (\<lambda>a. a_id a = k \<and> status a = PENDING) (appointments s)")
  case Nil
  have "map (\<lambda>a. if a_id a = k \<and> status a = PENDING then confirmed_at now a else a)
          (appointments s) = appointments s"
    using Nil by (rule update_none_selected)
  then show ?thesis
    using assms Nil by (simp add: confirm_def Let_def)
next
  case (Cons a rest)
  then show ?thesis
    using assms by (simp add: confirm_def Let_def)
qed

text \<open>Confirming an id within the range of the column.\<close>

lemma confirm_in_range:
  assumes "\<not> F UPDATE_APPOINTMENT_CONFIRMED" and "confirm F now s k = (r, s')"
    and "integer_range k"
  shows "if \<exists>a \<in> set (appointments s). a_id a = k \<and> status a = PENDING
         then (\<exists>a. r = Confirmed a \<and> a_id a = k \<and> status a = CONFIRMED \<and>
                 confirmation_time a = Some now \<and> a \<in> set (appointments s')) \<and>
              appointments s' =
                map (\<lambda>a. if a_id a = k \<and> status a = PENDING
                         then a\<lparr>status := CONFIRMED, confirmation_time := Some now\<rparr> else a)
                  (appointments s) \<and>
              slots s' = slots s
         else r = NotFoundOrAlreadyProcessed \<and> s' = s"
proof (cases "filter (\<lambda>a. a_id a = k \<and> status a = PENDING) (appointments s)")
  case Nil
  then have none: "\<not> (\<exists>a \<in> set (appointments s). a_id a = k \<and> status a = PENDING)"
    by (simp add: filter_empty_conv)
  have "confirm F now s k = (NotFoundOrAlreadyProcessed, s)"
    using Nil by (simp add: confirm_unfold [of F, OF assms(1,3)])
  with assms(2) have "r = NotFoundOrAlreadyProcessed \<and> s' = s"
    by simp
  with none show ?thesis
    by simp
next
  case (Cons a0 rest)
  let ?g = "\<lambda>a. if a_id a = k \<and> status a = PENDING then confirmed_at now a else a"
  let ?s1 = "s\<lparr>appointments := map ?g (appointments s)\<rparr>"
  have "a0 \<in> set (filter (\<lambda>a. a_id a = k \<and> status a = PENDING) (appointments s))"
    by (simp add: Cons)
  then have a0: "a0 \<in> set (appointments s)" "a_id a0 = k" "status a0 = PENDING"
    by simp_all
  then have some: "\<exists>a \<in> set (appointments s). a_id a = k \<and> status a = PENDING"
    by blast
  have "confirm F now s k = (Confirmed (confirmed_at now a0), ?s1)"
    using Cons by (simp add: confirm_unfold [of F, OF assms(1,3)])
  with assms(2) have r: "r = Confirmed (confirmed_at now a0)" and s': "s' = ?s1"
    by simp_all
  have g: "?g a0 = confirmed_at now a0"
    using a0 by simp
  have "?g a0 \<in> set (map ?g (appointments s))"
    unfolding set_map using a0(1) by (rule imageI)
  then have mem: "confirmed_at now a0 \<in> set (appointments s')"
    unfolding g by (simp add: s')
  have props: "a_id (confirmed_at now a0) = k" "status (confirmed_at now a0) = CONFIRMED"
    "confirmation_time (confirmed_at now a0) = Some now"
    using a0 by (simp_all add: confirmed_at_def)
  have 1: "\<exists>a. r = Confirmed a \<and> a_id a = k \<and> status a = CONFIRMED \<and>
                 confirmation_time a = Some now \<and> a \<in> set (appointments s')"
    using r props mem by blast
  have 2: "appointments s' =
                map (\<lambda>a. if a_id a = k \<and> status a = PENDING
                         then a\<lparr>status := CONFIRMED, confirmation_time := Some now\<rparr> else a)
                  (appointments s)"
    by (simp add: s' confirmed_at_def)
  have 3: "slots s' = slots s"
    by (simp add: s')
  from some 1 2 3 show ?thesis
    by (simp only: if_True)
qed

lemma mem_map_filter: "y \<in> set (map f (filter P xs)) \<longleftrightarrow> (\<exists>a \<in> set xs. P a \<and> f a = y)"
  by auto

lemma expire_pending_unfold:
  assumes "\<not> F EXPIRE_PENDING" and "expire_pending F now s = (l, s')"
  shows "s' = s\<lparr>appointments :=
                 map (\<lambda>a. if expired now a then a\<lparr>status := FAILED\<rparr> else a) (appointments s),
               slots :=
                 map (\<lambda>sl. if s_id sl \<in> set (map slot_id (filter (expired now) (appointments s)))
                            then sl\<lparr>is_booked := False\<rparr> else sl) (slots s)\<rparr>"
  using assms by (simp add: expire_pending_def Let_def)

lemma expire_pending_throws:
  assumes "F EXPIRE_PENDING" and "expire_pending F now s = (l, s')"
  shows "s' = s"
  using assms by (simp add: expire_pending_def)

lemma expired_iff:
  "expired now a \<longleftrightarrow> status a = PENDING \<and> booking_time a < now - seconds 120"
  by (simp add: expired_def two_minutes_def seconds_def)

text \<open>A tick that selects no appointment changes nothing.\<close>

lemma expire_pending_nothing_selected:
  assumes "filter (expired now) (appointments s) = []"
  shows "snd (expire_pending F now s) = s"
proof (cases "F EXPIRE_PENDING")
  case True
  then show ?thesis
    by (simp add: expire_pending_def)
next
  case False
  have "expire_pending F now s = (fst (expire_pending F now s), snd (expire_pending F now s))"
    by simp
  note s' = expire_pending_unfold [of F, OF False this]
  have a: "map (\<lambda>a. if expired now a then a\<lparr>status := FAILED\<rparr> else a) (appointments s) =
      appointments s"
    using assms by (rule update_none_selected)
  have b: "map (\<lambda>sl. if s_id sl \<in> set (map slot_id (filter (expired now) (appointments s)))
                     then sl\<lparr>is_booked := False\<rparr> else sl) (slots s) = slots s"
    by (rule map_idI) (simp add: assms)
  show ?thesis
    by (subst s') (simp only: a b, simp)
qed

text \<open>After a tick at \<open>now\<close>, the appointments a tick at \<open>later\<close> would select.\<close>

lemma nothing_left_to_expire:
  assumes "\<not> F EXPIRE_PENDING"
    and "\<forall>a \<in> set (appointments s).
           status a = PENDING \<longrightarrow>
           booking_time a < now - seconds 120 \<or> later - seconds 120 \<le> booking_time a"
  shows "filter (expired later) (appointments (snd (expire_pending F now s))) = []"
proof -
  let ?g = "\<lambda>a. if expired now a then a\<lparr>status := FAILED\<rparr> else a"
  have "expire_pending F now s = (fst (expire_pending F now s), snd (expire_pending F now s))"
    by simp
  from expire_pending_unfold [of F, OF assms(1) this]
  have apps: "appointments (snd (expire_pending F now s)) = map ?g (appointments s)"
    by simp
  have "\<not> expired later (?g a)" if a: "a \<in> set (appointments s)" for a
  proof (cases "expired now a")
    case True
    then have "status (?g a) = FAILED" by simp
    then show ?thesis by (simp add: expired_iff)
  next
    case False
    show ?thesis
    proof (cases "status a = PENDING")
      case True
      with False have "\<not> booking_time a < now - seconds 120"
        by (simp add: expired_iff)
      with assms(2) a True have "later - seconds 120 \<le> booking_time a"
        by blast
      with False show ?thesis by (simp add: expired_iff)
    next
      case other: False
      with False show ?thesis by (simp add: expired_iff)
    qed
  qed
  then have "\<forall>x \<in> set (map ?g (appointments s)). \<not> expired later x"
    unfolding set_map ball_simps(9) by (rule ballI)
  then show ?thesis
    unfolding apps by (simp only: filter_empty_conv)
qed


lemma slots_set_cancelled: "slots (set_cancelled k s) = slots s"
  by (simp add: set_cancelled_def)

lemma appointments_set_cancelled:
  "appointments (set_cancelled k s) =
     map (\<lambda>a. if a_id a = k then a\<lparr>status := CANCELLED\<rparr> else a) (appointments s)"
  by (simp add: set_cancelled_def)

text \<open>With distinct keys, the rows of a given key are the one row that has it.\<close>

lemma filter_key_distinct:
  assumes "distinct (map f xs)" and "a \<in> set xs"
  shows "filter (\<lambda>b. f b = f a) xs = [a]"
  using assms
proof (induction xs)
  case Nil
  then show ?case by simp
next
  case (Cons x xs)
  have notin: "f x \<notin> f ` set xs" and d: "distinct (map f xs)"
    using Cons.prems(1) by simp_all
  have other: "f b \<noteq> f x" if "b \<in> set xs" for b
  proof
    assume "f b = f x"
    then have "f x = f b" by (rule sym)
    with that have "f x \<in> f ` set xs" by (rule rev_image_eqI)
    with notin show False by (rule notE)
  qed
  show ?case
  proof (cases "x = a")
    case True
    have "filter (\<lambda>b. f b = f x) xs = []"
      unfolding filter_empty_conv using other by (intro ballI)
    with True show ?thesis by simp
  next
    case False
    with Cons.prems(2) have a: "a \<in> set xs" by simp
    then have "f a \<noteq> f x" by (rule other)
    then have "f x \<noteq> f a" by (rule not_sym)
    with Cons.IH [OF d a] show ?thesis by simp
  qed
qed

lemma cancel_unfold:
  assumes "\<not> F BEGIN" "\<not> F SELECT_APPOINTMENT" "\<not> F UPDATE_APPOINTMENT_CANCELLED"
    "\<not> F UPDATE_SLOT_RELEASED" "\<not> F COMMIT"
    and "filter (\<lambda>b. a_id b = k) (appointments s) = a # rest"
  shows "cancel F s k = (Cancelled, set_booked (slot_id a) False (set_cancelled k s))"
  using assms by (simp add: cancel_def Let_def)

lemma run_append: "run (ops @ ops') s = run ops' (run ops s)"
  by (induction ops arbitrary: s) auto

section \<open>Keeping the tables consistent\<close>

lemma filter_le_one_member:
  assumes "length (filter P xs) \<le> 1" and "x \<in> set xs" and "P x"
  shows "filter P xs = [x]"
proof (cases "filter P xs")
  case Nil
  from assms(2,3) have "x \<in> set (filter P xs)" by simp
  with Nil show ?thesis by simp
next
  case (Cons y ys)
  from assms(2,3) have x: "x \<in> set (filter P xs)" by simp
  from assms(1) Cons have "ys = []" by simp
  with Cons x show ?thesis by simp
qed

lemma filter_map_invariant:
  assumes "\<And>x. P (g x) = P x"
  shows "filter P (map g xs) = map g (filter P xs)"
  by (induction xs) (simp_all add: assms)

lemma consistent_same_tables:
  assumes "slots s' = slots s" and "appointments s' = appointments s"
  shows "consistent s' = consistent s"
  by (simp add: consistent_def active_on_def assms)

lemma consistent_mapped_appointments:
  assumes "slots s' = slots s" and "\<And>j. active_on s' j = map g (active_on s j)"
    and "consistent s"
  shows "consistent s'"
  using assms(3) by (simp add: consistent_def assms(1,2))

lemma keys_ok_alt:
  "keys_ok s \<longleftrightarrow>
     distinct (map a_id (appointments s)) \<and>
     (\<forall>i \<in> set (map a_id (appointments s)). i < appointments_id_seq s)"
  by (simp add: keys_ok_def)

lemma keys_ok_same_ids:
  assumes "map a_id (appointments s') = map a_id (appointments s)"
    and "appointments_id_seq s \<le> appointments_id_seq s'" and "keys_ok s"
  shows "keys_ok s'"
proof -
  from assms(3) have d: "distinct (map a_id (appointments s))"
    and b: "\<forall>i \<in> set (map a_id (appointments s)). i < appointments_id_seq s"
    unfolding keys_ok_alt by blast+
  have "i < appointments_id_seq s'" if "i \<in> set (map a_id (appointments s))" for i
  proof -
    from b that have "i < appointments_id_seq s" by (rule bspec)
    with assms(2) show ?thesis by simp
  qed
  then have "\<forall>i \<in> set (map a_id (appointments s)). i < appointments_id_seq s'"
    by (rule ballI)
  with d show ?thesis
    unfolding keys_ok_alt assms(1) by (rule conjI)
qed

text \<open>Confirming keeps the tables consistent.\<close>

lemma snd_confirm:
  "snd (confirm F now s k) =
     (if F UPDATE_APPOINTMENT_CONFIRMED \<or> \<not> integer_range k then s
      else s\<lparr>appointments :=
             map (\<lambda>a. if a_id a = k \<and> status a = PENDING then confirmed_at now a else a)
               (appointments s)\<rparr>)"
  by (simp add: confirm_def Let_def split: list.split)

lemma confirmed_at_same:
  "slot_id (if a_id a = k \<and> status a = PENDING then confirmed_at now a else a) = slot_id a"
  "a_id (if a_id a = k \<and> status a = PENDING then confirmed_at now a else a) = a_id a"
  "active (if a_id a = k \<and> status a = PENDING then confirmed_at now a else a) = active a"
  by (simp_all add: confirmed_at_def active_def)

lemma confirm_preserves:
  assumes "consistent s" and "keys_ok s"
  shows "consistent (snd (confirm F now s k)) \<and> keys_ok (snd (confirm F now s k))"
proof (cases "F UPDATE_APPOINTMENT_CONFIRMED \<or> \<not> integer_range k")
  case True
  then show ?thesis
    using assms by (simp add: snd_confirm)
next
  case False
  let ?g = "\<lambda>a. if a_id a = k \<and> status a = PENDING then confirmed_at now a else a"
  let ?s' = "s\<lparr>appointments := map ?g (appointments s)\<rparr>"
  have s': "snd (confirm F now s k) = ?s'"
    using False by (simp add: snd_confirm)
  have slots: "slots ?s' = slots s"
    by simp
  have "active_on ?s' j = map ?g (active_on s j)" for j
  proof -
    have "filter (\<lambda>a. slot_id a = j \<and> active a) (map ?g (appointments s)) =
        map ?g (filter (\<lambda>a. slot_id a = j \<and> active a) (appointments s))"
      by (rule filter_map_invariant) (simp only: confirmed_at_same)
    then show ?thesis
      by (simp add: active_on_def)
  qed
  with slots have 1: "consistent ?s'"
    using assms(1) by (rule consistent_mapped_appointments)
  have "map a_id (appointments ?s') = map a_id (appointments s)"
    by (simp add: confirmed_at_same(2) del: if_split cong: if_cong)
  then have 2: "keys_ok ?s'"
    using _ assms(2) by (rule keys_ok_same_ids) simp
  from 1 2 show ?thesis
    unfolding s' by (rule conjI)
qed


text \<open>Booking keeps the tables consistent.\<close>

lemma consistentD:
  assumes "consistent s" and "sl \<in> set (slots s)"
  shows "is_booked sl \<longleftrightarrow> active_on s (s_id sl) \<noteq> []"
    and "length (active_on s (s_id sl)) \<le> 1"
  using assms unfolding consistent_def by blast+

lemma consistentI:
  assumes "\<And>sl. sl \<in> set (slots s) \<Longrightarrow> is_booked sl \<longleftrightarrow> active_on s (s_id sl) \<noteq> []"
    and "\<And>sl. sl \<in> set (slots s) \<Longrightarrow> length (active_on s (s_id sl)) \<le> 1"
  shows "consistent s"
  unfolding consistent_def using assms by blast

lemma book_seq:
  "appointments_id_seq s \<le> appointments_id_seq (snd (book F now s req))"
  unfolding book_def Let_def
  by (simp add: rollback_def insert_appointment_def set_booked_def split: list.split)

lemma active_on_booked:
  assumes "slot_id a = k" and "active a"
  shows "active_on (set_booked k b (insert_appointment a s)) j =
          active_on s j @ (if j = k then [a] else [])"
  using assms
  by (simp add: active_on_def appointments_set_booked appointments_insert_appointment)

lemma booked_consistent:
  assumes "consistent s" and "slot_id a = k" and "active a"
    and "sl0 \<in> set (slots s)" and "s_id sl0 = k" and "\<not> is_booked sl0"
  shows "consistent (set_booked k True (insert_appointment a s))"
proof (rule consistentI)
  let ?s' = "set_booked k True (insert_appointment a s)"
  from consistentD(1) [OF assms(1,4)] assms(5,6) have free: "active_on s k = []"
    by simp
  fix x assume x: "x \<in> set (slots ?s')"
  from in_slots_set_booked [OF x] obtain y where y: "y \<in> set (slots s)"
    and xy: "s_id x = s_id y" and hit: "s_id y = k \<longrightarrow> is_booked x = True"
    and miss: "s_id y \<noteq> k \<longrightarrow> x = y"
    unfolding slots_insert_appointment by blast
  have both: "(is_booked x \<longleftrightarrow> active_on ?s' (s_id x) \<noteq> []) \<and>
      length (active_on ?s' (s_id x)) \<le> 1"
  proof (cases "s_id y = k")
    case True
    with hit have "is_booked x" by simp
    moreover have "active_on ?s' (s_id x) = [a]"
      unfolding active_on_booked [OF assms(2,3)] xy using True free by simp
    ultimately show ?thesis by simp
  next
    case False
    with miss have "x = y" by simp
    moreover have "active_on ?s' (s_id y) = active_on s (s_id y)"
      unfolding active_on_booked [OF assms(2,3)] using False by simp
    ultimately show ?thesis
      using consistentD [OF assms(1) y] by simp
  qed
  from both show "is_booked x \<longleftrightarrow> active_on ?s' (s_id x) \<noteq> []" ..
  from both show "length (active_on ?s' (s_id x)) \<le> 1" ..
qed

lemma booked_keys_ok:
  assumes "keys_ok s" and "a_id a = appointments_id_seq s"
  shows "keys_ok (set_booked k b (insert_appointment a s))"
proof -
  let ?n = "appointments_id_seq s"
  from assms(1) have d: "distinct (map a_id (appointments s))"
    and bound: "\<forall>i \<in> set (map a_id (appointments s)). i < ?n"
    unfolding keys_ok_alt by blast+
  have new: "?n \<notin> set (map a_id (appointments s))"
  proof
    assume "?n \<in> set (map a_id (appointments s))"
    with bound have "?n < ?n" by (rule bspec)
    then show False by simp
  qed
  have ids: "map a_id (appointments (set_booked k b (insert_appointment a s))) =
      map a_id (appointments s) @ [?n]"
    by (simp add: appointments_set_booked appointments_insert_appointment assms(2))
  have seq: "appointments_id_seq (set_booked k b (insert_appointment a s)) = ?n + 1"
    by (simp add: set_booked_def insert_appointment_def)
  have "i < ?n + 1" if "i \<in> set (map a_id (appointments s) @ [?n])" for i
  proof (cases "i = ?n")
    case True
    then show ?thesis by simp
  next
    case False
    with that have "i \<in> set (map a_id (appointments s))" by simp
    with bound have "i < ?n" by (rule bspec)
    then show ?thesis by simp
  qed
  then have "\<forall>i \<in> set (map a_id (appointments s) @ [?n]). i < ?n + 1"
    by (rule ballI)
  moreover from d new have "distinct (map a_id (appointments s) @ [?n])"
    by simp
  ultimately show ?thesis
    unfolding keys_ok_alt ids seq by (rule conjI [rotated])
qed

lemma book_preserves:
  assumes "consistent s" and "keys_ok s"
  shows "consistent (snd (book F now s req)) \<and> keys_ok (snd (book F now s req))"
proof -
  let ?a = "new_appointment now s req"
  let ?k = "the (req_slot_id req)"
  have pair: "book F now s req = (fst (book F now s req), snd (book F now s req))"
    by simp
  from book_cases [OF pair] consider
    (ok) "snd (book F now s req) = set_booked ?k True (insert_appointment ?a s)"
         "\<exists>sl \<in> set (slots s). s_id sl = ?k \<and> \<not> is_booked sl"
  | (failed) "appointments (snd (book F now s req)) = appointments s"
         "slots (snd (book F now s req)) = slots s"
    by blast
  then show ?thesis
  proof cases
    case ok
    from ok(2) obtain sl0 where sl0: "sl0 \<in> set (slots s)" "s_id sl0 = ?k" "\<not> is_booked sl0"
      by blast
    have a: "slot_id ?a = ?k" "active ?a" "a_id ?a = appointments_id_seq s"
      by (simp_all add: new_appointment_def active_def)
    from assms(1) a(1,2) sl0 have "consistent (set_booked ?k True (insert_appointment ?a s))"
      by (rule booked_consistent)
    moreover from assms(2) a(3) have "keys_ok (set_booked ?k True (insert_appointment ?a s))"
      by (rule booked_keys_ok)
    ultimately show ?thesis
      unfolding ok(1) by (rule conjI)
  next
    case failed
    from failed(2,1) have "consistent (snd (book F now s req)) = consistent s"
      by (rule consistent_same_tables)
    with assms(1) have 1: "consistent (snd (book F now s req))"
      by simp
    from failed(1) have "map a_id (appointments (snd (book F now s req))) =
        map a_id (appointments s)"
      by simp
    then have 2: "keys_ok (snd (book F now s req))"
      using book_seq assms(2) by (rule keys_ok_same_ids)
    from 1 2 show ?thesis by (rule conjI)
  qed
qed

text \<open>
  Sweeping and cancelling have one shape: some active appointments are made inactive,
  and some slots are released. The tables stay consistent when the released slots are
  those of the appointments made inactive.
\<close>

lemma in_released_slots:
  assumes "x \<in> set (map (\<lambda>sl. if R sl then sl\<lparr>is_booked := b\<rparr> else sl) ys)"
  shows "\<exists>y \<in> set ys. s_id x = s_id y \<and> (R y \<longrightarrow> is_booked x = b) \<and> (\<not> R y \<longrightarrow> x = y)"
proof -
  from assms obtain y where y: "y \<in> set ys"
    and x: "x = (if R y then y\<lparr>is_booked := b\<rparr> else y)"
    unfolding set_map by (rule imageE)
  have "s_id x = s_id y" by (simp add: x)
  moreover have "R y \<longrightarrow> is_booked x = b" by (simp add: x)
  moreover have "\<not> R y \<longrightarrow> x = y" by (simp add: x)
  ultimately show ?thesis using y by blast
qed

lemma release_consistent:
  assumes s: "consistent s"
    and slots: "slots s' = map (\<lambda>sl. if R sl then sl\<lparr>is_booked := False\<rparr> else sl) (slots s)"
    and apps: "appointments s' = map g (appointments s)"
    and slot_id: "\<And>a. slot_id (g a) = slot_id a"
    and active: "\<And>a. active (g a) \<longleftrightarrow> active a \<and> \<not> D a"
    and released: "\<And>y. y \<in> set (slots s) \<Longrightarrow> R y \<Longrightarrow>
        \<exists>a \<in> set (appointments s). D a \<and> active a \<and> slot_id a = s_id y"
    and kept: "\<And>y a. y \<in> set (slots s) \<Longrightarrow> \<not> R y \<Longrightarrow> a \<in> set (appointments s) \<Longrightarrow>
        active a \<Longrightarrow> slot_id a = s_id y \<Longrightarrow> \<not> D a"
  shows "consistent s'"
proof (rule consistentI)
  have on: "active_on s' j = map g (filter (\<lambda>a. \<not> D a) (active_on s j))" for j
  proof -
    have "filter (\<lambda>a. slot_id a = j \<and> active a) (map g (appointments s)) =
        map g (filter ((\<lambda>a. slot_id a = j \<and> active a) \<circ> g) (appointments s))"
      by (rule filter_map)
    also have "(\<lambda>a. slot_id a = j \<and> active a) \<circ> g = (\<lambda>a. (slot_id a = j \<and> active a) \<and> \<not> D a)"
      by (rule ext) (simp add: slot_id active)
    also have "filter (\<lambda>a. (slot_id a = j \<and> active a) \<and> \<not> D a) (appointments s) =
        filter (\<lambda>a. \<not> D a) (filter (\<lambda>a. slot_id a = j \<and> active a) (appointments s))"
      by (simp only: filter_filter)
    finally show ?thesis
      by (simp only: active_on_def apps)
  qed
  fix x assume "x \<in> set (slots s')"
  then obtain y where y: "y \<in> set (slots s)" and xy: "s_id x = s_id y"
    and hit: "R y \<longrightarrow> is_booked x = False" and miss: "\<not> R y \<longrightarrow> x = y"
    unfolding slots using in_released_slots by blast
  note inv = consistentD [OF s y]
  have "length (active_on s' (s_id y)) \<le> length (active_on s (s_id y))"
    unfolding on by simp
  with inv(2) have le: "length (active_on s' (s_id y)) \<le> 1"
    by simp
  have booked: "is_booked x \<longleftrightarrow> active_on s' (s_id y) \<noteq> []"
  proof (cases "R y")
    case True
    from released [OF y True] obtain a where a: "a \<in> set (appointments s)" "D a" "active a"
      "slot_id a = s_id y"
      by blast
    from inv(2) a(1) have "filter (\<lambda>a. slot_id a = s_id y \<and> active a) (appointments s) = [a]"
      unfolding active_on_def by (rule filter_le_one_member) (simp add: a)
    then have "active_on s (s_id y) = [a]"
      by (simp only: active_on_def)
    then have "active_on s' (s_id y) = map g (filter (\<lambda>a. \<not> D a) [a])"
      by (simp only: on)
    then have "active_on s' (s_id y) = []"
      using a(2) by simp
    with hit True show ?thesis by simp
  next
    case False
    have "\<not> D a" if "a \<in> set (active_on s (s_id y))" for a
    proof -
      from that have "a \<in> set (appointments s)" "active a" "slot_id a = s_id y"
        by (simp_all add: active_on_def)
      with y False show ?thesis by (rule kept)
    qed
    then have "\<forall>a \<in> set (active_on s (s_id y)). \<not> D a"
      by (rule ballI)
    then have "filter (\<lambda>a. \<not> D a) (active_on s (s_id y)) = active_on s (s_id y)"
      by (rule filter_True)
    then have "active_on s' (s_id y) = map g (active_on s (s_id y))"
      unfolding on by simp
    then have "active_on s' (s_id y) \<noteq> [] \<longleftrightarrow> active_on s (s_id y) \<noteq> []"
      by simp
    with inv(1) miss False show ?thesis by simp
  qed
  from booked show "is_booked x \<longleftrightarrow> active_on s' (s_id x) \<noteq> []"
    by (simp only: xy)
  from le show "length (active_on s' (s_id x)) \<le> 1"
    by (simp only: xy)
qed

text \<open>A tick keeps the tables consistent.\<close>

lemma expire_pending_preserves:
  assumes "consistent s" and "keys_ok s"
  shows "consistent (snd (expire_pending F now s)) \<and> keys_ok (snd (expire_pending F now s))"
proof (cases "F EXPIRE_PENDING")
  case True
  then have "snd (expire_pending F now s) = s"
    by (simp add: expire_pending_def)
  with assms show ?thesis by simp
next
  case False
  let ?g = "\<lambda>a. if expired now a then a\<lparr>status := FAILED\<rparr> else a"
  let ?R = "\<lambda>sl. s_id sl \<in> set (map slot_id (filter (expired now) (appointments s)))"
  let ?s' = "snd (expire_pending F now s)"
  have "expire_pending F now s = (fst (expire_pending F now s), ?s')"
    by simp
  note s' = expire_pending_unfold [of F, OF False this]
  have slots: "slots ?s' = map (\<lambda>sl. if ?R sl then sl\<lparr>is_booked := False\<rparr> else sl) (slots s)"
    by (subst s') simp
  have apps: "appointments ?s' = map ?g (appointments s)"
    by (subst s') simp
  have seq: "appointments_id_seq ?s' = appointments_id_seq s"
    by (subst s') simp
  have 1: "consistent ?s'"
    using assms(1) slots apps
  proof (rule release_consistent [where D = "expired now"])
    show "slot_id (?g a) = slot_id a" for a
      by simp
    show "active (?g a) \<longleftrightarrow> active a \<and> \<not> expired now a" for a
      by (simp add: active_def)
    show "\<exists>a \<in> set (appointments s). expired now a \<and> active a \<and> slot_id a = s_id y"
      if "?R y" for y
    proof -
      from that obtain a where a: "a \<in> set (appointments s)" "expired now a" "slot_id a = s_id y"
        unfolding mem_map_filter by blast
      from a(2) have "active a"
        by (simp add: expired_def active_def)
      with a show ?thesis by blast
    qed
    show "\<not> expired now a"
      if "\<not> ?R y" and "a \<in> set (appointments s)" and "slot_id a = s_id y" for y a
      using that unfolding mem_map_filter by blast
  qed
  have "map a_id (appointments ?s') = map a_id (appointments s)"
    unfolding apps map_map by (rule map_cong) simp_all
  then have 2: "keys_ok ?s'"
    using _ assms(2) by (rule keys_ok_same_ids) (simp add: seq)
  from 1 2 show ?thesis by (rule conjI)
qed

text \<open>Cancelling an active appointment keeps the tables consistent.\<close>

lemma cancel_cases:
  assumes "cancel F s k = (r, s')"
  shows "(\<exists>a rest. r = Cancelled \<and> filter (\<lambda>b. a_id b = k) (appointments s) = a # rest \<and>
            s' = set_booked (slot_id a) False (set_cancelled k s)) \<or>
         (r \<in> {AppointmentNotFound, CancelError} \<and>
          appointments s' = appointments s \<and> slots s' = slots s \<and>
          appointments_id_seq s' = appointments_id_seq s)"
  using assms unfolding cancel_def Let_def
  by (auto split: if_splits list.splits simp add: rollback_def set_cancelled_def set_booked_def)

lemma cancel_preserves:
  assumes "consistent s" and "keys_ok s"
    and guard: "\<forall>a \<in> set (appointments s). a_id a = k \<longrightarrow> active a"
  shows "consistent (snd (cancel F s k)) \<and> keys_ok (snd (cancel F s k))"
proof -
  let ?s' = "snd (cancel F s k)"
  let ?g = "\<lambda>b. if a_id b = k then b\<lparr>status := CANCELLED\<rparr> else b"
  have "cancel F s k = (fst (cancel F s k), ?s')"
    by simp
  from cancel_cases [OF this] consider
    (ok) a0 rest where "filter (\<lambda>b. a_id b = k) (appointments s) = a0 # rest"
      "?s' = set_booked (slot_id a0) False (set_cancelled k s)"
  | (failed) "appointments ?s' = appointments s" "slots ?s' = slots s"
      "appointments_id_seq ?s' = appointments_id_seq s"
    by blast
  then show ?thesis
  proof cases
    case ok
    from filter_Cons_member [OF ok(1)] have a0: "a0 \<in> set (appointments s)" "a_id a0 = k"
      by simp_all
    with guard have act: "active a0" by blast
    from assms(2) have "distinct (map a_id (appointments s))"
      by (simp add: keys_ok_def)
    then have "filter (\<lambda>b. a_id b = a_id a0) (appointments s) = [a0]"
      using a0(1) by (rule filter_key_distinct)
    then have only: "filter (\<lambda>b. a_id b = k) (appointments s) = [a0]"
      by (simp only: a0(2))
    have slots: "slots ?s' =
        map (\<lambda>sl. if s_id sl = slot_id a0 then sl\<lparr>is_booked := False\<rparr> else sl) (slots s)"
      by (simp only: ok(2) slots_set_booked slots_set_cancelled)
    have apps: "appointments ?s' = map ?g (appointments s)"
      by (simp only: ok(2) appointments_set_booked appointments_set_cancelled)
    have seq: "appointments_id_seq ?s' = appointments_id_seq s"
      by (simp add: ok(2) set_booked_def set_cancelled_def)
    have 1: "consistent ?s'"
      using assms(1) slots apps
    proof (rule release_consistent [where D = "\<lambda>b. a_id b = k"])
      show "slot_id (?g a) = slot_id a" for a
        by simp
      show "active (?g a) \<longleftrightarrow> active a \<and> a_id a \<noteq> k" for a
        by (simp add: active_def)
      show "\<exists>a \<in> set (appointments s). a_id a = k \<and> active a \<and> slot_id a = s_id y"
        if "s_id y = slot_id a0" for y
        using a0 act that by (intro bexI [of _ a0]) simp_all
      show "a_id a \<noteq> k"
        if "s_id y \<noteq> slot_id a0" and "a \<in> set (appointments s)" and "slot_id a = s_id y" for y a
      proof
        assume "a_id a = k"
        with that(2) have "a \<in> set (filter (\<lambda>b. a_id b = k) (appointments s))"
          by simp
        then have "a = a0"
          by (simp only: only) simp
        with that(1,3) show False by simp
      qed
    qed
    have "map a_id (appointments ?s') = map a_id (appointments s)"
      unfolding apps map_map by (rule map_cong) simp_all
    then have 2: "keys_ok ?s'"
      using _ assms(2) by (rule keys_ok_same_ids) (simp add: seq)
    from 1 2 show ?thesis by (rule conjI)
  next
    case failed
    from failed(2,1) have "consistent ?s' = consistent s"
      by (rule consistent_same_tables)
    with assms(1) have 1: "consistent ?s'"
      by simp
    from failed(1) have "map a_id (appointments ?s') = map a_id (appointments s)"
      by simp
    then have 2: "keys_ok ?s'"
      using _ assms(2) by (rule keys_ok_same_ids) (simp add: failed(3))
    from 1 2 show ?thesis by (rule conjI)
  qed
qed

section \<open>Booking validates before it touches the tables\<close>

text \<open>
  C10. A request in which the slot id or any patient field is absent or falsy (the
  number 0 and the empty string included) is answered \<open>ValidationFailed\<close>, status 400,
  and the database is returned as it was, whichever statements would throw: the handler
  returns before \<open>BEGIN\<close>, so no statement is issued.
\<close>

theorem book_rejects_missing_field:
  assumes "req_slot_id req = None \<or> req_slot_id req = Some 0 \<or>
           req_patient_name req = None \<or> req_patient_name req = Some [] \<or>
           req_patient_email req = None \<or> req_patient_email req = Some [] \<or>
           req_patient_phone req = None \<or> req_patient_phone req = Some [] \<or>
           req_patient_age req = None \<or> req_patient_age req = Some 0 \<or>
           req_reason_for_visit req = None \<or> req_reason_for_visit req = Some []"
  shows "book F now s req = (ValidationFailed, s) \<and> http_status (fst (book F now s req)) = 400"
proof -
  have "missing_field req"
    using assms unfolding missing_field_def by auto
  then show ?thesis
    by (simp add: book_def)
qed

theorem book_rejects_missing_field_witness:
  "book (\<lambda>q. True) (seconds 5) db0 age_zero = (ValidationFailed, db0) \<and>
   book no_faults (seconds 5) db0 empty_name = (ValidationFailed, db0) \<and>
   book no_faults (seconds 5) db0 no_slot_id = (ValidationFailed, db0)"
  using book_rejects_missing_field [of age_zero "\<lambda>q. True" "seconds 5" db0]
    book_rejects_missing_field [of empty_name no_faults "seconds 5" db0]
    book_rejects_missing_field [of no_slot_id no_faults "seconds 5" db0]
  by (simp add: age_zero_def empty_name_def no_slot_id_def john_def)

section \<open>Booking is all or nothing\<close>

text \<open>
  C3. Whatever \<open>book\<close> answers, one of two things holds. Either the answer is
  \<open>Created a\<close>: then \<open>a\<close> is the one row added to \<open>appointments\<close>, its status is
  \<open>PENDING\<close>, the slot it names exists and every row of that slot is booked. Or the
  answer is one of the four failures (validation, slot not found, conflict, and the
  500 of the \<open>catch\<close> block, which covers a statement that throws after the lock is
  held): then \<open>appointments\<close> and \<open>slots\<close> are exactly as before the call.
\<close>

theorem book_atomic:
  assumes "book F now s req = (r, s')"
  shows "(\<exists>a. r = Created a \<and> status a = PENDING \<and>
            appointments s' = appointments s @ [a] \<and>
            (\<exists>sl \<in> set (slots s'). s_id sl = slot_id a) \<and>
            (\<forall>sl \<in> set (slots s'). s_id sl = slot_id a \<longrightarrow> is_booked sl)) \<or>
         (r \<in> {ValidationFailed, SlotNotFound, Conflict, BookingError} \<and>
          appointments s' = appointments s \<and> slots s' = slots s)"
proof -
  let ?a = "new_appointment now s req"
  let ?k = "the (req_slot_id req)"
  let ?s1 = "insert_appointment ?a s"
  consider
    (ok) "r = Created ?a" "s' = set_booked ?k True ?s1"
         "\<exists>sl \<in> set (slots s). s_id sl = ?k \<and> \<not> is_booked sl"
  | (failed) "r \<in> {ValidationFailed, SlotNotFound, Conflict, BookingError}"
         "appointments s' = appointments s" "slots s' = slots s"
    using book_cases [OF assms] by blast
  then show ?thesis
  proof cases
    case ok
    have k: "slot_id ?a = ?k"
      by (simp add: new_appointment_def)
    from ok(3) obtain sl where "sl \<in> set (slots ?s1)" "s_id sl = ?k"
      unfolding slots_insert_appointment by blast
    then have 1: "\<exists>x \<in> set (slots s'). s_id x = slot_id ?a"
      unfolding ok(2) k by (rule some_slot_in_set_booked)
    have 2: "\<forall>x \<in> set (slots s'). s_id x = slot_id ?a \<longrightarrow> is_booked x"
      unfolding ok(2) k using all_booked_in_set_booked [of _ ?k True ?s1] by blast
    have 3: "appointments s' = appointments s @ [?a]"
      unfolding ok(2) appointments_set_booked appointments_insert_appointment ..
    have 4: "status ?a = PENDING"
      by (simp add: new_appointment_def)
    have "r = Created ?a \<and> status ?a = PENDING \<and> appointments s' = appointments s @ [?a] \<and>
          (\<exists>sl \<in> set (slots s'). s_id sl = slot_id ?a) \<and>
          (\<forall>sl \<in> set (slots s'). s_id sl = slot_id ?a \<longrightarrow> is_booked sl)"
      using ok(1) 1 2 3 4 by (intro conjI)
    then show ?thesis
      by (intro disjI1 exI)
  next
    case failed
    then show ?thesis by (intro disjI2 conjI)
  qed
qed


theorem book_atomic_witness:
  "book no_faults (seconds 0) db0 john = (Created john_pending, db_john_pending) \<and>
   ((\<exists>a. Created john_pending = Created a \<and> status a = PENDING \<and>
         appointments db_john_pending = appointments db0 @ [a] \<and>
         (\<exists>sl \<in> set (slots db_john_pending). s_id sl = slot_id a) \<and>
         (\<forall>sl \<in> set (slots db_john_pending). s_id sl = slot_id a \<longrightarrow> is_booked sl)) \<or>
    (Created john_pending \<in> {ValidationFailed, SlotNotFound, Conflict, BookingError} \<and>
     appointments db_john_pending = appointments db0 \<and> slots db_john_pending = slots db0)) \<and>
   book commit_fails (seconds 0) db0 john = (BookingError, db0\<lparr>appointments_id_seq := 2\<rparr>) \<and>
   appointments (db0\<lparr>appointments_id_seq := 2\<rparr>) = appointments db0 \<and>
   slots (db0\<lparr>appointments_id_seq := 2\<rparr>) = slots db0"
proof -
  have ok: "book no_faults (seconds 0) db0 john = (Created john_pending, db_john_pending)"
    by code_simp
  have failed: "book commit_fails (seconds 0) db0 john =
      (BookingError, db0\<lparr>appointments_id_seq := 2\<rparr>)"
    by code_simp
  have "BookingError \<noteq> Created a" for a
    by simp
  with book_atomic [OF failed]
  have "appointments (db0\<lparr>appointments_id_seq := 2\<rparr>) = appointments db0 \<and>
        slots (db0\<lparr>appointments_id_seq := 2\<rparr>) = slots db0"
    by blast
  with ok failed book_atomic [OF ok] show ?thesis
    by (intro conjI) blast+
qed

section \<open>Confirming needs a pending appointment\<close>

text \<open>
  C5 as stated, that a missing id is answered \<open>NotFoundOrAlreadyProcessed\<close>, fails for
  an id outside the range of the \<open>INTEGER\<close> column: no appointment has the id
  2147483648, no fault is injected, and the answer is the 500 of the \<open>catch\<close> block.
\<close>

theorem confirm_out_of_range_counterexample:
  "\<not> (\<exists>a \<in> set (appointments db_john_pending). a_id a = 2147483648) \<and>
   confirm no_faults (seconds 30) db_john_pending 2147483648 = (ConfirmError, db_john_pending) \<and>
   http_status ConfirmError = 500 \<and>
   message ConfirmError = ''Error confirming appointment'' \<and>
   ConfirmError \<noteq> NotFoundOrAlreadyProcessed"
  by code_simp

text \<open>
  C5, as amended. When its statement does not throw for another reason: for an id within
  the range of the \<open>INTEGER\<close> column, \<open>confirm\<close> succeeds exactly when some
  appointment has the given id and status \<open>PENDING\<close>. It then answers with a row of
  that id whose status is \<open>CONFIRMED\<close> and whose confirmation time is the current
  time, the rows it selected are rewritten so and no other row, and \<open>slots\<close> is
  untouched. Otherwise (no row of that id, or a row in another status) it answers
  \<open>NotFoundOrAlreadyProcessed\<close> and the database is the one it was given. For an id
  outside that range it answers the error of the \<open>catch\<close> block (500) and the database
  is the one it was given.
\<close>

theorem confirm_only_pending:
  assumes "\<not> F UPDATE_APPOINTMENT_CONFIRMED" and "confirm F now s k = (r, s')"
  shows "if integer_range k
         then (if \<exists>a \<in> set (appointments s). a_id a = k \<and> status a = PENDING
               then (\<exists>a. r = Confirmed a \<and> a_id a = k \<and> status a = CONFIRMED \<and>
                       confirmation_time a = Some now \<and> a \<in> set (appointments s')) \<and>
                    appointments s' =
                      map (\<lambda>a. if a_id a = k \<and> status a = PENDING
                               then a\<lparr>status := CONFIRMED, confirmation_time := Some now\<rparr>
                               else a)
                        (appointments s) \<and>
                    slots s' = slots s
               else r = NotFoundOrAlreadyProcessed \<and> s' = s)
         else r = ConfirmError \<and> s' = s"
proof (cases "integer_range k")
  case True
  from assms True
  have "if \<exists>a \<in> set (appointments s). a_id a = k \<and> status a = PENDING
        then (\<exists>a. r = Confirmed a \<and> a_id a = k \<and> status a = CONFIRMED \<and>
                confirmation_time a = Some now \<and> a \<in> set (appointments s')) \<and>
             appointments s' =
               map (\<lambda>a. if a_id a = k \<and> status a = PENDING
                        then a\<lparr>status := CONFIRMED, confirmation_time := Some now\<rparr>
                        else a)
                 (appointments s) \<and>
             slots s' = slots s
        else r = NotFoundOrAlreadyProcessed \<and> s' = s"
    by (rule confirm_in_range)
  with True show ?thesis
    by (simp only: if_True)
next
  case False
  then have "confirm F now s k = (ConfirmError, s)"
    by (simp add: confirm_def)
  with assms(2) have "r = ConfirmError \<and> s' = s"
    by simp
  with False show ?thesis
    by (simp only: if_False)
qed

theorem confirm_only_pending_witness:
  "confirm no_faults (seconds 30) db_john_pending 1 =
     (Confirmed (john_pending\<lparr>status := CONFIRMED, confirmation_time := Some (seconds 30)\<rparr>),
      db_john_pending\<lparr>appointments :=
        [john_pending\<lparr>status := CONFIRMED, confirmation_time := Some (seconds 30)\<rparr>]\<rparr>) \<and>
   confirm no_faults (seconds 130) db_john_failed 1 =
     (NotFoundOrAlreadyProcessed, db_john_failed) \<and>
   confirm no_faults (seconds 30) db_john_pending 7 =
     (NotFoundOrAlreadyProcessed, db_john_pending) \<and>
   confirm no_faults (seconds 30) db_john_pending (- 2147483649) =
     (ConfirmError, db_john_pending)"
proof -
  have nf: "\<not> no_faults UPDATE_APPOINTMENT_CONFIRMED"
    by (simp add: no_faults_def)
  have inside: "integer_range 1" "integer_range 7"
    by (simp_all add: integer_range_def)
  have outside: "\<not> integer_range (- 2147483649)"
    by (simp add: integer_range_def)
  have failed: "\<not> (\<exists>a \<in> set (appointments db_john_failed). a_id a = 1 \<and> status a = PENDING)"
    by code_simp
  have absent: "\<not> (\<exists>a \<in> set (appointments db_john_pending). a_id a = 7 \<and> status a = PENDING)"
    by code_simp
  have 1: "confirm no_faults (seconds 30) db_john_pending 1 =
     (Confirmed (john_pending\<lparr>status := CONFIRMED, confirmation_time := Some (seconds 30)\<rparr>),
      db_john_pending\<lparr>appointments :=
        [john_pending\<lparr>status := CONFIRMED, confirmation_time := Some (seconds 30)\<rparr>]\<rparr>)"
    by code_simp
  have 2: "confirm no_faults (seconds 130) db_john_failed 1 =
     (fst (confirm no_faults (seconds 130) db_john_failed 1),
      snd (confirm no_faults (seconds 130) db_john_failed 1))"
    by simp
  have 3: "confirm no_faults (seconds 30) db_john_pending 7 =
     (fst (confirm no_faults (seconds 30) db_john_pending 7),
      snd (confirm no_faults (seconds 30) db_john_pending 7))"
    by simp
  have 6: "confirm no_faults (seconds 30) db_john_pending (- 2147483649) =
     (fst (confirm no_faults (seconds 30) db_john_pending (- 2147483649)),
      snd (confirm no_faults (seconds 30) db_john_pending (- 2147483649)))"
    by simp
  from confirm_only_pending [of no_faults, OF nf 2] inside(1) failed
  have "fst (confirm no_faults (seconds 130) db_john_failed 1) = NotFoundOrAlreadyProcessed \<and>
        snd (confirm no_faults (seconds 130) db_john_failed 1) = db_john_failed"
    by (simp only: if_True if_False)
  then have 4: "confirm no_faults (seconds 130) db_john_failed 1 =
     (NotFoundOrAlreadyProcessed, db_john_failed)"
    by (simp add: prod_eq_iff)
  from confirm_only_pending [of no_faults, OF nf 3] inside(2) absent
  have "fst (confirm no_faults (seconds 30) db_john_pending 7) = NotFoundOrAlreadyProcessed \<and>
        snd (confirm no_faults (seconds 30) db_john_pending 7) = db_john_pending"
    by (simp only: if_True if_False)
  then have 5: "confirm no_faults (seconds 30) db_john_pending 7 =
     (NotFoundOrAlreadyProcessed, db_john_pending)"
    by (simp add: prod_eq_iff)
  from confirm_only_pending [of no_faults, OF nf 6] outside
  have "fst (confirm no_faults (seconds 30) db_john_pending (- 2147483649)) = ConfirmError \<and>
        snd (confirm no_faults (seconds 30) db_john_pending (- 2147483649)) = db_john_pending"
    by (simp only: if_False)
  then have 7: "confirm no_faults (seconds 30) db_john_pending (- 2147483649) =
     (ConfirmError, db_john_pending)"
    by (simp add: prod_eq_iff)
  from 1 4 5 7 show ?thesis
    by (intro conjI)
qed

section \<open>What one tick of the sweeper does\<close>

text \<open>
  C6. A tick is one statement. If it throws, the database is unchanged. Otherwise
  every appointment that is \<open>PENDING\<close> with a booking time more than 120 seconds
  before the tick has its status set to \<open>FAILED\<close>, every other appointment (a
  \<open>PENDING\<close> one booked 120 seconds ago or less, or one in any other status) is the
  row it was, and a slot has \<open>is_booked\<close> set to false exactly when one of the
  expired appointments names it, every other slot being the row it was.
\<close>

theorem expire_pending_tick:
  assumes "expire_pending F now s = (l, s')"
  shows "if F EXPIRE_PENDING then s' = s
         else appointments s' =
                map (\<lambda>a. if status a = PENDING \<and> booking_time a < now - seconds 120
                         then a\<lparr>status := FAILED\<rparr> else a) (appointments s) \<and>
              slots s' =
                map (\<lambda>sl. if \<exists>a \<in> set (appointments s).
                                status a = PENDING \<and> booking_time a < now - seconds 120 \<and>
                                slot_id a = s_id sl
                           then sl\<lparr>is_booked := False\<rparr> else sl) (slots s)"
proof (cases "F EXPIRE_PENDING")
  case True
  then show ?thesis
    using expire_pending_throws [OF True assms] by simp
next
  case False
  note s' = expire_pending_unfold [of F, OF False assms]
  have released: "s_id sl \<in> set (map slot_id (filter (expired now) (appointments s))) \<longleftrightarrow>
      (\<exists>a \<in> set (appointments s).
         status a = PENDING \<and> booking_time a < now - seconds 120 \<and> slot_id a = s_id sl)" for sl
    unfolding mem_map_filter expired_iff by blast
  have 1: "appointments s' =
      map (\<lambda>a. if status a = PENDING \<and> booking_time a < now - seconds 120
               then a\<lparr>status := FAILED\<rparr> else a) (appointments s)"
    unfolding s' expired_iff by simp
  have 2: "slots s' =
      map (\<lambda>sl. if \<exists>a \<in> set (appointments s).
                      status a = PENDING \<and> booking_time a < now - seconds 120 \<and>
                      slot_id a = s_id sl
                 then sl\<lparr>is_booked := False\<rparr> else sl) (slots s)"
    unfolding s' released by simp
  from False 1 2 show ?thesis
    by (simp only: if_False)
qed


theorem expire_pending_tick_witness:
  "expire_pending no_faults (seconds 121) db_john_pending = (Logged_expired 1, db_john_failed) \<and>
   appointments db_john_failed =
     map (\<lambda>a. if status a = PENDING \<and> booking_time a < seconds 121 - seconds 120
              then a\<lparr>status := FAILED\<rparr> else a) (appointments db_john_pending) \<and>
   expire_pending no_faults (seconds 120) db_john_pending = (Nothing_logged, db_john_pending) \<and>
   appointments db_john_pending =
     map (\<lambda>a. if status a = PENDING \<and> booking_time a < seconds 120 - seconds 120
              then a\<lparr>status := FAILED\<rparr> else a) (appointments db_john_pending)"
proof -
  have nf: "\<not> no_faults EXPIRE_PENDING"
    by (simp add: no_faults_def)
  have old: "expire_pending no_faults (seconds 121) db_john_pending =
      (Logged_expired 1, db_john_failed)"
    by code_simp
  have young: "expire_pending no_faults (seconds 120) db_john_pending =
      (Nothing_logged, db_john_pending)"
    by code_simp
  from expire_pending_tick [OF old] nf
  have 1: "appointments db_john_failed =
     map (\<lambda>a. if status a = PENDING \<and> booking_time a < seconds 121 - seconds 120
              then a\<lparr>status := FAILED\<rparr> else a) (appointments db_john_pending)"
    by (simp only: if_False)
  from expire_pending_tick [OF young] nf
  have 2: "appointments db_john_pending =
     map (\<lambda>a. if status a = PENDING \<and> booking_time a < seconds 120 - seconds 120
              then a\<lparr>status := FAILED\<rparr> else a) (appointments db_john_pending)"
    by (simp only: if_False)
  from old 1 young 2 show ?thesis
    by (intro conjI)
qed

section \<open>Two ticks in a row\<close>

text \<open>
  C7 as stated, that a second tick at the same or a later time changes nothing, fails
  for a later time: a booking made at time 0 is untouched by a tick at 60 seconds and
  expired by a tick at 121 seconds.
\<close>

theorem expire_pending_later_tick_counterexample:
  "snd (expire_pending no_faults (seconds 60) db_john_pending) = db_john_pending \<and>
   snd (expire_pending no_faults (seconds 121)
          (snd (expire_pending no_faults (seconds 60) db_john_pending))) = db_john_failed \<and>
   db_john_failed \<noteq> db_john_pending"
  by code_simp


text \<open>
  C7, as amended. After a tick that did not throw, a second tick at the same time
  leaves the database as the first tick left it. A second tick at a later time does so
  too, provided no appointment that was \<open>PENDING\<close> and within its 120 seconds at the
  first tick is beyond them at the second.
\<close>

theorem expire_pending_idempotent:
  assumes "\<not> F1 EXPIRE_PENDING"
  shows "snd (expire_pending F2 now (snd (expire_pending F1 now s))) =
           snd (expire_pending F1 now s) \<and>
         ((\<forall>a \<in> set (appointments s).
              status a = PENDING \<longrightarrow>
              booking_time a < now - seconds 120 \<or> later - seconds 120 \<le> booking_time a) \<longrightarrow>
          snd (expire_pending F2 later (snd (expire_pending F1 now s))) =
            snd (expire_pending F1 now s))"
proof (intro conjI impI)
  have "\<forall>a \<in> set (appointments s).
          status a = PENDING \<longrightarrow>
          booking_time a < now - seconds 120 \<or> now - seconds 120 \<le> booking_time a"
    by (simp add: not_less [symmetric])
  with assms have "filter (expired now) (appointments (snd (expire_pending F1 now s))) = []"
    by (rule nothing_left_to_expire)
  then show "snd (expire_pending F2 now (snd (expire_pending F1 now s))) =
      snd (expire_pending F1 now s)"
    by (rule expire_pending_nothing_selected)
next
  assume "\<forall>a \<in> set (appointments s).
      status a = PENDING \<longrightarrow>
      booking_time a < now - seconds 120 \<or> later - seconds 120 \<le> booking_time a"
  with assms have "filter (expired later) (appointments (snd (expire_pending F1 now s))) = []"
    by (rule nothing_left_to_expire)
  then show "snd (expire_pending F2 later (snd (expire_pending F1 now s))) =
      snd (expire_pending F1 now s)"
    by (rule expire_pending_nothing_selected)
qed

theorem expire_pending_idempotent_witness:
  "snd (expire_pending no_faults (seconds 140) (snd (expire_pending no_faults (seconds 140) db_rebooked))) =
     snd (expire_pending no_faults (seconds 140) db_rebooked) \<and>
   snd (expire_pending no_faults (seconds 200) (snd (expire_pending no_faults (seconds 140) db_rebooked))) =
     snd (expire_pending no_faults (seconds 140) db_rebooked) \<and>
   snd (expire_pending no_faults (seconds 500) (snd (expire_pending no_faults (seconds 121) db_john_pending))) =
     db_john_failed"
proof -
  have nf: "\<not> no_faults EXPIRE_PENDING"
    by (simp add: no_faults_def)
  have young: "\<forall>a \<in> set (appointments db_rebooked).
      status a = PENDING \<longrightarrow>
      booking_time a < seconds 140 - seconds 120 \<or> seconds 200 - seconds 120 \<le> booking_time a"
    by code_simp
  have old: "\<forall>a \<in> set (appointments db_john_pending).
      status a = PENDING \<longrightarrow>
      booking_time a < seconds 121 - seconds 120 \<or> seconds 500 - seconds 120 \<le> booking_time a"
    by code_simp
  have first: "snd (expire_pending no_faults (seconds 121) db_john_pending) = db_john_failed"
    by code_simp
  from expire_pending_idempotent [of no_faults no_faults "seconds 140" db_rebooked "seconds 200", OF nf]
    young
  have 1: "snd (expire_pending no_faults (seconds 140) (snd (expire_pending no_faults (seconds 140) db_rebooked))) =
     snd (expire_pending no_faults (seconds 140) db_rebooked)"
    and 2: "snd (expire_pending no_faults (seconds 200) (snd (expire_pending no_faults (seconds 140) db_rebooked))) =
     snd (expire_pending no_faults (seconds 140) db_rebooked)"
    by blast+
  from expire_pending_idempotent [of no_faults no_faults "seconds 121" db_john_pending "seconds 500", OF nf]
    old
  have "snd (expire_pending no_faults (seconds 500) (snd (expire_pending no_faults (seconds 121) db_john_pending))) =
     snd (expire_pending no_faults (seconds 121) db_john_pending)"
    by blast
  then have 3: "snd (expire_pending no_faults (seconds 500) (snd (expire_pending no_faults (seconds 121) db_john_pending))) =
     db_john_failed"
    by (simp only: first)
  from 1 2 3 show ?thesis
    by (intro conjI)
qed


section \<open>Cancelling does not look at the status\<close>

text \<open>
  C9. When no statement of the transaction throws and the ids are distinct (the primary
  key), cancelling an appointment that exists succeeds whatever its status is: every
  row of that id gets status \<open>CANCELLED\<close>, and every row of the slot the appointment
  names gets \<open>is_booked\<close> false, all other rows being as they were. Nothing is asked
  about other appointments of that slot, so the slot is released also when an active
  appointment of another patient names it.
\<close>

theorem cancel_any_status:
  assumes "\<not> F BEGIN" "\<not> F SELECT_APPOINTMENT" "\<not> F UPDATE_APPOINTMENT_CANCELLED"
    "\<not> F UPDATE_SLOT_RELEASED" "\<not> F COMMIT"
    and "distinct (map a_id (appointments s))"
    and "a \<in> set (appointments s)" and "a_id a = k"
  shows "\<exists>s'. cancel F s k = (Cancelled, s') \<and>
           appointments s' =
             map (\<lambda>b. if a_id b = k then b\<lparr>status := CANCELLED\<rparr> else b) (appointments s) \<and>
           slots s' =
             map (\<lambda>sl. if s_id sl = slot_id a then sl\<lparr>is_booked := False\<rparr> else sl) (slots s) \<and>
           a\<lparr>status := CANCELLED\<rparr> \<in> set (appointments s') \<and>
           (\<forall>sl \<in> set (slots s'). s_id sl = slot_id a \<longrightarrow> \<not> is_booked sl)"
proof -
  let ?s' = "set_booked (slot_id a) False (set_cancelled k s)"
  let ?g = "\<lambda>b. if a_id b = k then b\<lparr>status := CANCELLED\<rparr> else b"
  have "filter (\<lambda>b. a_id b = a_id a) (appointments s) = [a]"
    using assms(6,7) by (rule filter_key_distinct)
  then have "filter (\<lambda>b. a_id b = k) (appointments s) = a # []"
    by (simp only: assms(8))
  with assms(1-5) have 0: "cancel F s k = (Cancelled, ?s')"
    by (rule cancel_unfold)
  have 1: "appointments ?s' = map ?g (appointments s)"
    by (simp only: appointments_set_booked appointments_set_cancelled)
  have 2: "slots ?s' =
      map (\<lambda>sl. if s_id sl = slot_id a then sl\<lparr>is_booked := False\<rparr> else sl) (slots s)"
    by (simp only: slots_set_booked slots_set_cancelled)
  have "?g a \<in> set (map ?g (appointments s))"
    unfolding set_map using assms(7) by (rule imageI)
  then have 3: "a\<lparr>status := CANCELLED\<rparr> \<in> set (appointments ?s')"
    unfolding 1 using assms(8) by simp
  have 4: "\<forall>sl \<in> set (slots ?s'). s_id sl = slot_id a \<longrightarrow> \<not> is_booked sl"
  proof (intro ballI impI)
    fix sl assume "sl \<in> set (slots ?s')" and "s_id sl = slot_id a"
    then have "is_booked sl = False"
      by (rule all_booked_in_set_booked)
    then show "\<not> is_booked sl" by simp
  qed
  from 0 1 2 3 4 show ?thesis
    by (intro exI [of _ ?s'] conjI)
qed


theorem cancel_any_status_witness:
  "\<exists>s'. cancel no_faults db_rebooked 1 = (Cancelled, s') \<and>
      status (john_pending\<lparr>status := FAILED\<rparr>) = FAILED \<and>
      appointments s' = [john_pending\<lparr>status := CANCELLED\<rparr>, mary_pending] \<and>
      status mary_pending = PENDING \<and>
      slot_id mary_pending = slot_id (john_pending\<lparr>status := FAILED\<rparr>) \<and>
      (\<forall>sl \<in> set (slots s'). s_id sl = slot_id mary_pending \<longrightarrow> \<not> is_booked sl)"
proof -
  have nf: "\<not> no_faults BEGIN" "\<not> no_faults SELECT_APPOINTMENT"
    "\<not> no_faults UPDATE_APPOINTMENT_CANCELLED" "\<not> no_faults UPDATE_SLOT_RELEASED"
    "\<not> no_faults COMMIT"
    by (simp_all add: no_faults_def)
  have keys: "distinct (map a_id (appointments db_rebooked))"
    by code_simp
  have row: "john_pending\<lparr>status := FAILED\<rparr> \<in> set (appointments db_rebooked)"
    by code_simp
  have id: "a_id (john_pending\<lparr>status := FAILED\<rparr>) = 1"
    by code_simp
  have rows: "map (\<lambda>b. if a_id b = 1 then b\<lparr>status := CANCELLED\<rparr> else b)
      (appointments db_rebooked) = [john_pending\<lparr>status := CANCELLED\<rparr>, mary_pending]"
    by code_simp
  have facts: "status (john_pending\<lparr>status := FAILED\<rparr>) = FAILED"
    "status mary_pending = PENDING"
    "slot_id mary_pending = slot_id (john_pending\<lparr>status := FAILED\<rparr>)"
    by code_simp+
  from cancel_any_status [of no_faults, OF nf keys row id]
  obtain s' where s': "cancel no_faults db_rebooked 1 = (Cancelled, s')"
    "appointments s' =
       map (\<lambda>b. if a_id b = 1 then b\<lparr>status := CANCELLED\<rparr> else b) (appointments db_rebooked)"
    "\<forall>sl \<in> set (slots s').
       s_id sl = slot_id (john_pending\<lparr>status := FAILED\<rparr>) \<longrightarrow> \<not> is_booked sl"
    by blast
  from s'(2) have apps: "appointments s' = [john_pending\<lparr>status := CANCELLED\<rparr>, mary_pending]"
    by (simp only: rows)
  from s'(3) have free: "\<forall>sl \<in> set (slots s'). s_id sl = slot_id mary_pending \<longrightarrow> \<not> is_booked sl"
    by (simp only: facts(3))
  from s'(1) facts apps free show ?thesis
    by (intro exI [of _ s'] conjI)
qed

section \<open>Cancelling an appointment that is not active\<close>

text \<open>
  C4 says that \<open>cancel\<close> succeeds only from \<open>PENDING\<close> or \<open>CONFIRMED\<close>. The handler
  has no such guard (the sibling \<open>confirm\<close> has one in its \<open>WHERE\<close> clause, and the
  client offers the cancel button for these two statuses only). In the history of the
  example data appointment 1 is \<open>FAILED\<close> and slot 1 has been booked again by another
  patient; cancelling appointment 1 is answered 200 and releases slot 1.
\<close>

theorem cancel_accepts_failed_appointment:
  "appointments db_rebooked = [john_pending\<lparr>status := FAILED\<rparr>, mary_pending] \<and>
   status (john_pending\<lparr>status := FAILED\<rparr>) = FAILED \<and>
   cancel no_faults db_rebooked 1 = (Cancelled, db_after_cancel) \<and>
   http_status Cancelled = 200 \<and>
   slots db_after_cancel = [slot1, slot2] \<and> is_booked slot1 = False"
  by code_simp

section \<open>The invariant is broken by such a cancellation\<close>

text \<open>
  C2 says that the four operations keep the tables consistent. The history of the
  example data starts from a consistent state and uses only the four operations: book
  slot 1, let the tick expire the booking, book slot 1 again, cancel the expired
  appointment. It ends with slot 1 free although the second appointment is still
  \<open>PENDING\<close>; the next booking of slot 1 succeeds, and slot 1 then has two active
  appointments.
\<close>

theorem cancel_breaks_consistency:
  "consistent db0 \<and>
   run history db0 = db_rebooked \<and> consistent db_rebooked \<and>
   step no_faults (seconds 140) (Cancel 1) db_rebooked = db_after_cancel \<and>
   \<not> consistent db_after_cancel \<and>
   length (active_on (step no_faults (seconds 150) (Book john) db_after_cancel) 1) = 2"
  by code_simp

theorem cancel_breaks_consistency_witness:
  "\<exists>ops. consistent db0 \<and> \<not> consistent (run ops db0)"
proof -
  from cancel_breaks_consistency
  have 0: "consistent db0" and 1: "run history db0 = db_rebooked"
    and 2: "step no_faults (seconds 140) (Cancel 1) db_rebooked = db_after_cancel"
    and 3: "\<not> consistent db_after_cancel"
    by blast+
  have "run (history @ [(no_faults, seconds 140, Cancel 1)]) db0 = db_after_cancel"
    by (simp only: run_append 1 run.simps 2)
  with 0 3 show ?thesis
    by (intro exI [of _ "history @ [(no_faults, seconds 140, Cancel 1)]"] conjI) simp_all
qed

section \<open>The settings of the sweeper\<close>

text \<open>
  C8 as stated, that the period and the grace window are read from the options
  \<open>sweepIntervalSeconds\<close> and \<open>pendingGraceSeconds\<close>, fails: with both options set
  to 30 in the environment the period is still 60000 milliseconds, and a tick leaves a
  booking of 60 seconds ago pending, as it does with no option set.
\<close>

theorem sweeper_options_counterexample:
  "sweep_period_ms (start_server tuned) = 60000 \<and>
   sweep_callback (start_server tuned) no_faults (seconds 60) db_john_pending =
     (Nothing_logged, db_john_pending) \<and>
   sweep_callback (start_server tuned) no_faults (seconds 60) db_john_pending =
     sweep_callback (start_server Map.empty) no_faults (seconds 60) db_john_pending"
proof -
  have "expire_pending no_faults (seconds 60) db_john_pending = (Nothing_logged, db_john_pending)"
    by code_simp
  then show ?thesis
    by (simp add: start_server_def)
qed

text \<open>
  C8, as amended. The period of the sweeper is 60 seconds and the grace window is 120
  seconds, whatever the environment holds: both are literals of the source.
\<close>

theorem sweeper_settings_are_constants:
  "sweep_period_ms (start_server env) = 60 * 1000 \<and>
   sweep_callback (start_server env) = expire_pending \<and>
   (expired now a \<longleftrightarrow> status a = PENDING \<and> booking_time a < now - seconds 120)"
  by (simp add: start_server_def expired_iff)


section \<open>The operations that keep the invariant\<close>

text \<open>
  Booking, confirming and the tick keep the tables consistent and the keys as the
  schema makes them, whichever statements throw; so does cancelling, provided the
  appointment to cancel is active. The cancellation of an appointment that is not
  active is the one step that can break the invariant.
\<close>

theorem step_preserves_consistency:
  assumes "consistent s" and "keys_ok s"
    and "\<forall>k. op = Cancel k \<longrightarrow> (\<forall>a \<in> set (appointments s). a_id a = k \<longrightarrow> active a)"
  shows "consistent (step F now op s) \<and> keys_ok (step F now op s)"
proof (cases op)
  case (Book req)
  with book_preserves [OF assms(1,2)] show ?thesis by simp
next
  case (Confirm k)
  with confirm_preserves [OF assms(1,2)] show ?thesis by simp
next
  case (Cancel k)
  with assms(3) have "\<forall>a \<in> set (appointments s). a_id a = k \<longrightarrow> active a"
    by blast
  with assms(1,2) have "consistent (snd (cancel F s k)) \<and> keys_ok (snd (cancel F s k))"
    by (rule cancel_preserves)
  with Cancel show ?thesis by simp
next
  case Sweep
  with expire_pending_preserves [OF assms(1,2)] show ?thesis by simp
qed


theorem step_preserves_consistency_witness:
  "consistent (step no_faults (seconds 140) (Cancel 2) db_rebooked) \<and>
   keys_ok (step no_faults (seconds 140) (Cancel 2) db_rebooked) \<and>
   consistent (step no_faults (seconds 140) (Book john) db_rebooked) \<and>
   slots (step no_faults (seconds 140) (Cancel 2) db_rebooked) = [slot1, slot2]"
proof -
  have c: "consistent db_rebooked" and k: "keys_ok db_rebooked"
    by code_simp+
  have g: "\<forall>k. Cancel 2 = Cancel k \<longrightarrow>
      (\<forall>a \<in> set (appointments db_rebooked). a_id a = k \<longrightarrow> active a)"
  proof (intro allI impI)
    fix k assume "Cancel 2 = Cancel k"
    then have "k = 2" by simp
    moreover have "\<forall>a \<in> set (appointments db_rebooked). a_id a = 2 \<longrightarrow> active a"
      by code_simp
    ultimately show "\<forall>a \<in> set (appointments db_rebooked). a_id a = k \<longrightarrow> active a"
      by simp
  qed
  have b: "\<forall>k. Book john = Cancel k \<longrightarrow>
      (\<forall>a \<in> set (appointments db_rebooked). a_id a = k \<longrightarrow> active a)"
    by simp
  have s: "slots (step no_faults (seconds 140) (Cancel 2) db_rebooked) = [slot1, slot2]"
    by code_simp
  from step_preserves_consistency [OF c k g, of no_faults "seconds 140"]
    step_preserves_consistency [OF c k b, of no_faults "seconds 140"] s
  show ?thesis by (intro conjI) blast+
qed

section \<open>Bookings one after the other\<close>

text \<open>
  Once a booking of a slot has succeeded, a complete request for the same slot that
  runs after it, and whose first statements do not throw, is answered \<open>Conflict\<close>
  (409) and changes nothing. This is what the handlers give when the database runs
  the transactions on one slot one after the other.
\<close>

theorem second_booking_conflicts:
  assumes "book F1 t1 s req1 = (Created a, s1)"
    and "\<not> missing_field req2" and "req_slot_id req2 = req_slot_id req1"
    and "\<not> F2 BEGIN" and "\<not> F2 SELECT_SLOT_FOR_UPDATE" and "\<not> F2 ROLLBACK"
  shows "book F2 t2 s1 req2 = (Conflict, s1)"
proof -
  let ?k = "the (req_slot_id req1)"
  let ?s0 = "insert_appointment (new_appointment t1 s req1) s"
  have "Created a \<notin> {ValidationFailed, SlotNotFound, Conflict, BookingError}"
    by simp
  with book_cases [OF assms(1)] have s1: "s1 = set_booked ?k True ?s0"
    and ex: "\<exists>sl \<in> set (slots s). s_id sl = ?k \<and> \<not> is_booked sl"
    by blast+
  from ex obtain sl where "sl \<in> set (slots ?s0)" "s_id sl = ?k"
    unfolding slots_insert_appointment by blast
  then have "\<exists>x \<in> set (slots s1). s_id x = ?k"
    unfolding s1 by (rule some_slot_in_set_booked)
  then have "filter (\<lambda>sl. s_id sl = ?k) (slots s1) \<noteq> []"
    unfolding filter_empty_conv by blast
  then obtain x rest where f: "filter (\<lambda>sl. s_id sl = ?k) (slots s1) = x # rest"
    by (cases "filter (\<lambda>sl. s_id sl = ?k) (slots s1)") blast+
  from filter_Cons_member [OF f] have "x \<in> set (slots (set_booked ?k True ?s0))" "s_id x = ?k"
    unfolding s1 by simp_all
  then have "is_booked x = True"
    by (rule all_booked_in_set_booked)
  with f assms(2-6) show ?thesis
    by (simp add: book_def)
qed

theorem second_booking_conflicts_witness:
  "book no_faults (seconds 0) db0 john = (Created john_pending, db_john_pending) \<and>
   book no_faults (seconds 1) db_john_pending mary = (Conflict, db_john_pending) \<and>
   http_status Conflict = 409"
proof -
  have 1: "book no_faults (seconds 0) db0 john = (Created john_pending, db_john_pending)"
    by code_simp
  have 2: "\<not> missing_field mary" "req_slot_id mary = req_slot_id john"
    by code_simp+
  have 3: "\<not> no_faults BEGIN" "\<not> no_faults SELECT_SLOT_FOR_UPDATE" "\<not> no_faults ROLLBACK"
    by (simp_all add: no_faults_def)
  from second_booking_conflicts [of no_faults, OF 1 2 3] 1 show ?thesis
    by simp
qed


end
